theory Spec2Isabelle
  imports Complex_Main "HOL-Library.Word"
begin

section \<open>The rover base driver (rover\_driver/src/base.cpp)\<close>

text \<open>
  The node turns a planar velocity command into four motor values, sends them as an MSP
  frame and polls the flight controller for inertial data. The C++ computes on
  \<^verbatim>\<open>double\<close>; the embedding computes on \<^typ>\<open>real\<close>, so every statement below is
  about the arithmetic the code writes down, without rounding error and without the
  non-numbers of IEEE 754 (NaN, infinities).
\<close>

subsection \<open>Constants\<close>

text \<open>The wheel layout \<^verbatim>\<open>V[4][3]\<close>: one row per motor, columns forward, lateral, rotation.\<close>

definition V :: "(real \<times> real \<times> real) list" where
  "V = [(1, -1, -1),
        (1, 1, -1),
        (1, 1, 1),
        (1, -1, 1)]"

definition max_velocity :: real where
  "max_velocity = 50"

definition comb_limit :: real where
  "comb_limit = 2"

definition DSHOT_NEUTRAL :: real where
  "DSHOT_NEUTRAL = 1500"

subsection \<open>Helpers of the C++ library and of util/\<close>

text \<open>
  Modelled from the spec: \<^verbatim>\<open>clamp\<close> of util/clamp.h, which is not among the sources. The
  code calls it as a statement on an lvalue (\<^verbatim>\<open>clamp(vx, -1.0, 1.0);\<close>), so it
  overwrites its first argument; the spec says out-of-range input is clamped to the
  interval. The function returns the value left in the variable.
\<close>

definition clamp :: "real \<Rightarrow> real \<Rightarrow> real \<Rightarrow> real" where
  "clamp x lo hi = (if x < lo then lo else if hi < x then hi else x)"

text \<open>\<^verbatim>\<open>std::round\<close>: to the nearest integer, halfway cases away from zero.\<close>

definition cpp_round :: "real \<Rightarrow> int" where
  "cpp_round x = (if 0 \<le> x then \<lfloor>x + 1 / 2\<rfloor> else - \<lfloor>- x + 1 / 2\<rfloor>)"

text \<open>
  \<^verbatim>\<open>std::max(a, b)\<close> is \<^verbatim>\<open>(a < b) ? b : a\<close>. In line 63 its second argument is
  \<^verbatim>\<open>abs(v[i])\<close>; both arguments of \<^verbatim>\<open>std::max\<close> must have one type, so this \<^verbatim>\<open>abs\<close> is
  the overload on \<^verbatim>\<open>double\<close>, the absolute value.
\<close>

definition std_max :: "real \<Rightarrow> real \<Rightarrow> real" where
  "std_max a b = (if a < b then b else a)"

subsection \<open>set\_motors: mixing, throttling, encoding\<close>

text \<open>
  The first loop of \<^verbatim>\<open>set_motors\<close> (lines 61 to 64): for each row of \<open>V\<close> the wheel
  speed \<^verbatim>\<open>v[i]\<close> is the dot product with the command, and \<^verbatim>\<open>amplitude\<close> is the running
  maximum of the magnitudes. The result is the array \<^verbatim>\<open>v\<close> and the final amplitude.
\<close>

fun mix_loop :: "real \<Rightarrow> real \<Rightarrow> real \<Rightarrow> (real \<times> real \<times> real) list \<Rightarrow> real \<Rightarrow> real list \<times> real" where
  "mix_loop vx vy vr [] amplitude = ([], amplitude)"
| "mix_loop vx vy vr ((c0, c1, c2) # rows) amplitude =
     (let vi = vx * c0 + vy * c1 + vr * c2;
          (vs, a) = mix_loop vx vy vr rows (std_max amplitude \<bar>vi\<bar>)
      in (vi # vs, a))"

text \<open>
  Lines 66 to 70: the amplitude is divided by \<open>comb_limit\<close>, and when the quotient
  exceeds 1 every wheel speed is divided by it.
\<close>

definition throttle :: "real list \<Rightarrow> real \<Rightarrow> real list" where
  "throttle v amplitude =
     (let amplitude' = amplitude / comb_limit
      in if amplitude' > 1 then map (\<lambda>x. x / amplitude') v else v)"

text \<open>
  Lines 59 to 70: mixing and throttling of a command whose components are the values
  left in \<^verbatim>\<open>vx\<close>, \<^verbatim>\<open>vy\<close>, \<^verbatim>\<open>vr\<close> by the three clamps.
\<close>

definition wheel_speeds :: "real \<Rightarrow> real \<Rightarrow> real \<Rightarrow> real list" where
  "wheel_speeds vx vy vr = (let (v, amplitude) = mix_loop vx vy vr V 0 in throttle v amplitude)"

text \<open>
  Lines 56 to 70 together: the three inputs are clamped to \<open>[-1, 1]\<close>, mixed and
  throttled. This is the part the spec calls the velocity mixer. \<open>raw_mix\<close> is the
  state after line 64: the wheel speeds before throttling, and their peak magnitude.
\<close>

definition raw_mix :: "real \<Rightarrow> real \<Rightarrow> real \<Rightarrow> real list \<times> real" where
  "raw_mix vx vy vr = mix_loop (clamp vx (-1) 1) (clamp vy (-1) 1) (clamp vr (-1) 1) V 0"

definition mix :: "real \<Rightarrow> real \<Rightarrow> real \<Rightarrow> real list" where
  "mix vx vy vr = wheel_speeds (clamp vx (-1) 1) (clamp vy (-1) 1) (clamp vr (-1) 1)"

text \<open>
  The failed \<^verbatim>\<open>ASSERT\<close> of line 78 (util/assert.h, not among the sources; the spec
  calls it process-terminating) is an error value carrying the motor index and the
  value the message would have shown.
\<close>

datatype error = Motor_abnormal nat int

text \<open>
  The \<^verbatim>\<open>motor\<close> array of the persistent \<^verbatim>\<open>msp_set_motor\<close> struct, as a store from
  index to value. The struct is declared in MultiWii/protocol.h, which is not among the
  sources; the code writes indices 0 to 3 only. The entries are integers of the struct's
  element type; the conversion from \<^verbatim>\<open>double\<close> is the value itself for the values
  that reach it (they are shown to lie in \<open>[1400, 1600]\<close>).
\<close>

type_synonym motor_array = "nat \<Rightarrow> int"

text \<open>One iteration of the encoding loop, lines 73 to 76: the value stored in \<^verbatim>\<open>motor[i]\<close>.\<close>

definition encode :: "real \<Rightarrow> int" where
  "encode w =
     (let cmd_vel = real_of_int (cpp_round (DSHOT_NEUTRAL + max_velocity * w));
          cmd_vel' = clamp cmd_vel (DSHOT_NEUTRAL - max_velocity * comb_limit)
                                   (DSHOT_NEUTRAL + max_velocity * comb_limit)
      in cpp_round cmd_vel')"

text \<open>
  The encoding loop, lines 72 to 81, from index \<open>i\<close> on: each value is stored and then
  checked; the first failed check ends the run.
\<close>

fun encode_loop :: "nat \<Rightarrow> real list \<Rightarrow> motor_array \<Rightarrow> error + motor_array" where
  "encode_loop i [] motor = Inr motor"
| "encode_loop i (w # ws) motor =
     (let m = encode w; motor' = motor(i := m)
      in if m \<ge> 1400 \<and> m \<le> 1600 then encode_loop (Suc i) ws motor'
         else Inl (Motor_abnormal i m))"

subsection \<open>The node's state\<close>

text \<open>\<^verbatim>\<open>geometry_msgs::msg::Twist\<close>: two vectors of three \<^verbatim>\<open>double\<close>s.\<close>

record twist =
  linear_x :: real
  linear_y :: real
  linear_z :: real
  angular_x :: real
  angular_y :: real
  angular_z :: real

definition zero_twist :: twist where
  "zero_twist = \<lparr>linear_x = 0, linear_y = 0, linear_z = 0,
                 angular_x = 0, angular_y = 0, angular_z = 0\<rparr>"

text \<open>
  What \<^verbatim>\<open>MultiWii::send<...>(serial_fd, ...)\<close> is asked to write: the opcode and, for the
  motor command, the struct passed. The bytes it produces are the business of
  MultiWii/protocol.h.
\<close>

datatype out_frame = MSP_CMD_SET_MOTOR motor_array | MSP_QRY_RAW_IMU | MSP_QRY_ATTITUDE

text \<open>The three publishers: \<^verbatim>\<open>vel_get\<close>, \<^verbatim>\<open>imu_acc.publisher\<close>, \<^verbatim>\<open>imu_att.publisher\<close>.\<close>

datatype topic = Vel_get | Imu_acc | Imu_att

text \<open>
  The members of \<^verbatim>\<open>BaseDriver\<close> that the serial functions read or write, and the two
  effects on the outside as logs, oldest entry first: \<open>serial_tx\<close>, the frames handed to
  \<^verbatim>\<open>MultiWii::send\<close>, and \<open>published\<close>, the messages handed to a publisher.
  \<open>msg_vel_set\<close> is the shared pointer; \<open>None\<close> is \<^verbatim>\<open>nullptr\<close>. The type \<open>'r\<close> is the
  state of \<^verbatim>\<open>MultiWii::Receiver\<close>.
\<close>

record 'r base_driver =
  msg_vel_set :: "twist option"
  imu_acc_message :: twist
  imu_att_message :: twist
  receiver :: 'r
  msp_set_motor :: motor_array
  serial_tx :: "out_frame list"
  published :: "(topic \<times> twist) list"

subsection \<open>set\_motors\<close>

text \<open>
  \<^verbatim>\<open>set_motors(double &vx, double &vy, double &vr)\<close>: the arguments are references, and
  the three clamps write through them. The result is the values left in the three
  referenced variables and the new state, or the failed assertion.
\<close>

definition set_motors ::
  "real \<times> real \<times> real \<Rightarrow> 'r base_driver \<Rightarrow> error + ((real \<times> real \<times> real) \<times> 'r base_driver)" where
  "set_motors args s =
     (let (vx, vy, vr) = args;
          vx' = clamp vx (-1) 1;
          vy' = clamp vy (-1) 1;
          vr' = clamp vr (-1) 1
      in case encode_loop 0 (wheel_speeds vx' vy' vr') (msp_set_motor s) of
           Inl e \<Rightarrow> Inl e
         | Inr motor \<Rightarrow>
             Inr ((vx', vy', vr'),
                  s\<lparr>msp_set_motor := motor,
                    serial_tx := serial_tx s @ [MSP_CMD_SET_MOTOR motor]\<rparr>))"

text \<open>
  The members as the constructor finds them before \<^verbatim>\<open>serial_init\<close> sends anything:
  no pending command, default-constructed messages, the motor struct as
  \<^verbatim>\<open>memset\<close> leaves it, nothing sent and nothing published.
\<close>

definition power_on :: "'r \<Rightarrow> 'r base_driver" where
  "power_on r = \<lparr>msg_vel_set = None, imu_acc_message = zero_twist,
                  imu_att_message = zero_twist, receiver = r,
                  msp_set_motor = (\<lambda>i. 0), serial_tx = [], published = []\<rparr>"

text \<open>
  \<^verbatim>\<open>serial_init\<close> from the \<^verbatim>\<open>memset\<close> on (the port is open): all three references
  are the one local \<^verbatim>\<open>v = 0\<close>.
\<close>

definition serial_init :: "'r \<Rightarrow> error + 'r base_driver" where
  "serial_init r =
     (case set_motors (0, 0, 0) (power_on r) of
        Inl e \<Rightarrow> Inl e
      | Inr (refs, s) \<Rightarrow> Inr s)"

subsection \<open>Inbound telemetry\<close>

text \<open>
  The payload structs \<^verbatim>\<open>MSP_RAW_IMU_t\<close> and \<^verbatim>\<open>MSP_ATTITUDE_t\<close> are declared in
  MultiWii/protocol.h; only the fields base.cpp reads appear here, as integers.
\<close>

record raw_imu =
  accX :: int
  accY :: int
  accZ :: int
  gyrX :: int
  gyrY :: int
  gyrZ :: int

record attitude =
  angx :: int
  angy :: int
  heading :: int

text \<open>
  \<^verbatim>\<open>MultiWii::Receiver\<close> is not among the sources, so \<^verbatim>\<open>serial_in\<close> takes its operations
  as a parameter: \<open>recv\<close> consumes one byte and says whether a frame is complete, and
  for each of the two opcodes there is \<^verbatim>\<open>match<...>()\<close> and \<^verbatim>\<open>data<...>()\<close>.
\<close>

record 'r receiver_ops =
  recv :: "'r \<Rightarrow> 8 word \<Rightarrow> bool \<times> 'r"
  match_raw_imu :: "'r \<Rightarrow> bool"
  data_raw_imu :: "'r \<Rightarrow> raw_imu"
  match_attitude :: "'r \<Rightarrow> bool"
  data_attitude :: "'r \<Rightarrow> attitude"

text \<open>The two \<^verbatim>\<open>update\<close> overloads: fields are copied into the kept message, which is published.\<close>

definition update_raw_imu :: "raw_imu \<Rightarrow> 'r base_driver \<Rightarrow> 'r base_driver" where
  "update_raw_imu data s =
     (let message = (imu_acc_message s)
            \<lparr>linear_x := real_of_int (accX data),
             linear_y := real_of_int (accY data),
             linear_z := real_of_int (accZ data),
             angular_x := real_of_int (gyrX data),
             angular_y := real_of_int (gyrY data),
             angular_z := real_of_int (gyrZ data)\<rparr>
      in s\<lparr>imu_acc_message := message, published := published s @ [(Imu_acc, message)]\<rparr>)"

definition update_attitude :: "attitude \<Rightarrow> 'r base_driver \<Rightarrow> 'r base_driver" where
  "update_attitude data s =
     (let message = (imu_att_message s)
            \<lparr>angular_x := real_of_int (angx data),
             angular_y := real_of_int (angy data),
             angular_z := real_of_int (heading data)\<rparr>
      in s\<lparr>imu_att_message := message, published := published s @ [(Imu_att, message)]\<rparr>)"

text \<open>
  \<^verbatim>\<open>serial_in\<close>: the loop runs while \<^verbatim>\<open>read\<close> delivers a byte. The list is the bytes
  the port delivers before \<^verbatim>\<open>read\<close> first returns no byte.
\<close>

fun serial_in :: "'r receiver_ops \<Rightarrow> 8 word list \<Rightarrow> 'r base_driver \<Rightarrow> 'r base_driver" where
  "serial_in ops [] s = s"
| "serial_in ops (c # cs) s =
     (let (complete, r) = recv ops (receiver s) c;
          s1 = s\<lparr>receiver := r\<rparr>
      in serial_in ops cs
           (if \<not> complete then s1
            else if match_raw_imu ops r then update_raw_imu (data_raw_imu ops r) s1
            else if match_attitude ops r then update_attitude (data_attitude ops r) s1
            else s1))"

subsection \<open>Outbound commands and the timer\<close>

text \<open>
  \<^verbatim>\<open>serial_out\<close>: \<^verbatim>\<open>set_motors\<close> receives references to three fields of the pending
  message, so what it leaves in them is what the message holds when it is published.
\<close>

definition serial_out :: "'r base_driver \<Rightarrow> error + 'r base_driver" where
  "serial_out s =
     (let queries = (\<lambda>s. s\<lparr>serial_tx := serial_tx s @ [MSP_QRY_RAW_IMU, MSP_QRY_ATTITUDE]\<rparr>)
      in case msg_vel_set s of
           None \<Rightarrow> Inr (queries s)
         | Some msg \<Rightarrow>
             (case set_motors (linear_x msg, linear_y msg, angular_z msg) s of
                Inl e \<Rightarrow> Inl e
              | Inr ((vx, vy, vr), s1) \<Rightarrow>
                  let msg' = msg\<lparr>linear_x := vx, linear_y := vy, angular_z := vr\<rparr>;
                      s2 = s1\<lparr>published := published s1 @ [(Vel_get, msg')]\<rparr>;
                      s3 = s2\<lparr>msg_vel_set := None\<rparr>
                  in Inr (queries s3)))"

text \<open>The subscription callback of \<^verbatim>\<open>base/velocity/set\<close>; none of its statements throws.\<close>

definition vel_set_callback :: "twist \<Rightarrow> 'r base_driver \<Rightarrow> 'r base_driver" where
  "vel_set_callback msg s =
     s\<lparr>msg_vel_set := Some (msg\<lparr>linear_z := 0, angular_x := 0, angular_y := 0\<rparr>)\<rparr>"

text \<open>The 50 ms timer callback.\<close>

definition timer_callback :: "'r receiver_ops \<Rightarrow> 8 word list \<Rightarrow> 'r base_driver \<Rightarrow> error + 'r base_driver" where
  "timer_callback ops bytes s = serial_out (serial_in ops bytes s)"

text \<open>
  \<^verbatim>\<open>rclcpp::spin\<close> on one node runs its callbacks one after the other on the calling
  thread, so a run of the node is a sequence of events: a message on the subscription,
  or a timer tick together with the bytes the port holds at that tick. A failed
  assertion ends the run.
\<close>

datatype event = Vel_set twist | Timer "8 word list"

fun run :: "'r receiver_ops \<Rightarrow> event list \<Rightarrow> 'r base_driver \<Rightarrow> error + 'r base_driver" where
  "run ops [] s = Inr s"
| "run ops (Vel_set msg # es) s = run ops es (vel_set_callback msg s)"
| "run ops (Timer bytes # es) s =
     (case timer_callback ops bytes s of
        Inl e \<Rightarrow> Inl e
      | Inr s' \<Rightarrow> run ops es s')"

definition node :: "'r receiver_ops \<Rightarrow> 'r \<Rightarrow> event list \<Rightarrow> error + 'r base_driver" where
  "node ops r es =
     (case serial_init r of
        Inl e \<Rightarrow> Inl e
      | Inr s \<Rightarrow> run ops es s)"

subsection \<open>The wire protocol\<close>

text \<open>
  The codec (\<^verbatim>\<open>MultiWii::send\<close>, \<^verbatim>\<open>MultiWii::Receiver\<close>) lives in MultiWii/protocol.h, which
  is not among the sources. What follows is written from the spec's description of the
  protocol. The spec names the parts of a frame and the states of the parser, but not the
  sync bytes, the checksum function or the longest payload accepted: these are the
  fields of \<open>codec\<close>, and the statements hold for every choice of them.
\<close>

text \<open>Modelled from the spec: the parameters of the framing the absent header fixes.\<close>

record codec =
  sync_bytes :: "8 word list"
  checksum_init :: "8 word"
  checksum_step :: "8 word \<Rightarrow> 8 word \<Rightarrow> 8 word"
  max_length :: nat

text \<open>
  Modelled from the spec: the running checksum of the absent codec, over the opcode, the
  length and the payload.
\<close>

definition checksum :: "codec \<Rightarrow> 8 word list \<Rightarrow> 8 word" where
  "checksum c bs = foldl (checksum_step c) (checksum_init c) bs"

text \<open>
  Modelled from the spec: the outbound encoder of the absent \<^verbatim>\<open>MultiWii::send\<close>, which
  ``serializes opcode + payload length + payload + checksum into a byte sequence''. The
  frame starts with the sync bytes the parser seeks.
\<close>

definition frame_bytes :: "codec \<Rightarrow> 8 word \<Rightarrow> 8 word list \<Rightarrow> 8 word list" where
  "frame_bytes c opcode payload =
     sync_bytes c @ [opcode, of_nat (length payload)] @ payload @
     [checksum c ([opcode, of_nat (length payload)] @ payload)]"

text \<open>
  Modelled from the spec: the states of the absent incremental parser, ``seeking sync
  bytes, reading length, reading payload, reading checksum''; \<open>Seeking k\<close> has matched
  \<open>k\<close> sync bytes. The opcode is read where the encoder puts it, before the length.
\<close>

datatype phase = Seeking nat | Reading_opcode | Reading_length | Reading_payload | Reading_checksum

text \<open>
  Modelled from the spec: the ReceiverState of the absent parser (expected payload
  length, running checksum, partially built frame), and the last complete frame, which
  the caller queries.
\<close>

record receiver_state =
  phase :: phase
  frame_opcode :: "8 word"
  expected :: nat
  running :: "8 word"
  partial :: "8 word list"
  complete_frame :: "(8 word \<times> 8 word list) option"

text \<open>
  Modelled from the spec: the reset of the absent parser ``after each complete or invalid
  frame'', back to the seeking state.
\<close>

definition resync :: "codec \<Rightarrow> receiver_state \<Rightarrow> receiver_state" where
  "resync c st = st\<lparr>phase := Seeking 0, expected := 0, running := checksum_init c, partial := []\<rparr>"

text \<open>
  Modelled from the spec: \<^verbatim>\<open>feed(byte) -> bool\<close> of the absent parser. It consumes one
  byte and returns true only when a complete frame with a valid checksum has been
  assembled; a byte that is not the sync byte awaited, a length above the maximum or a
  wrong checksum drops the partial frame and returns to seeking.
\<close>

definition feed :: "codec \<Rightarrow> receiver_state \<Rightarrow> 8 word \<Rightarrow> bool \<times> receiver_state" where
  "feed c st b =
     (case phase st of
        Seeking k \<Rightarrow>
          if k < length (sync_bytes c) \<and> b = sync_bytes c ! k
          then (False, st\<lparr>phase := (if Suc k = length (sync_bytes c) then Reading_opcode
                                        else Seeking (Suc k))\<rparr>)
          else (False, resync c st)
      | Reading_opcode \<Rightarrow>
          (False, st\<lparr>phase := Reading_length, frame_opcode := b,
                      running := checksum_step c (running st) b\<rparr>)
      | Reading_length \<Rightarrow>
          if unat b > max_length c then (False, resync c st)
          else (False, st\<lparr>phase := (if unat b = 0 then Reading_checksum else Reading_payload),
                           expected := unat b,
                           running := checksum_step c (running st) b\<rparr>)
      | Reading_payload \<Rightarrow>
          (False, st\<lparr>phase := (if Suc (length (partial st)) = expected st then Reading_checksum
                                  else Reading_payload),
                      partial := partial st @ [b],
                      running := checksum_step c (running st) b\<rparr>)
      | Reading_checksum \<Rightarrow>
          if b = running st
          then (True, (resync c st)\<lparr>complete_frame := Some (frame_opcode st, partial st)\<rparr>)
          else (False, resync c st))"

text \<open>
  Modelled from the spec: feeding the absent parser a byte sequence one byte at a time;
  the result is the answer to each byte and the final state.
\<close>

fun feed_all :: "codec \<Rightarrow> receiver_state \<Rightarrow> 8 word list \<Rightarrow> bool list \<times> receiver_state" where
  "feed_all c st [] = ([], st)"
| "feed_all c st (b # bs) =
     (let (done, st1) = feed c st b; (flags, st2) = feed_all c st1 bs in (done # flags, st2))"

text \<open>
  Modelled from the spec: the two queries of the absent receiver after a complete frame,
  ``does this frame match opcode X'' and the retrieval of its payload (here the payload
  bytes, before they are read as a struct).
\<close>

definition frame_matches :: "receiver_state \<Rightarrow> 8 word \<Rightarrow> bool" where
  "frame_matches st opcode =
     (case complete_frame st of None \<Rightarrow> False | Some (op, p) \<Rightarrow> op = opcode)"

text \<open>
  Modelled from the spec: the payload of the last complete frame of the absent receiver,
  if there is one.
\<close>

definition frame_data :: "receiver_state \<Rightarrow> 8 word list option" where
  "frame_data st = map_option snd (complete_frame st)"

text \<open>
  One choice of the parameters and a fresh parser state, to evaluate the codec on
  concrete frames.
\<close>

definition example_codec :: codec where
  "example_codec = \<lparr>sync_bytes = [0x24, 0x4D], checksum_init = 0,
                     checksum_step = (\<lambda>a b. a + b), max_length = 255\<rparr>"

definition fresh :: "codec \<Rightarrow> receiver_state" where
  "fresh c = \<lparr>phase = Seeking 0, frame_opcode = 0, expected = 0, running = checksum_init c,
              partial = [], complete_frame = None\<rparr>"

subsection \<open>Observations used in the statements\<close>

text \<open>
  The effect of the whole encoding loop on the motor array: entry \<open>j\<close> below the number
  of wheel speeds holds the encoded speed, every other entry is untouched.
\<close>

definition stored :: "real list \<Rightarrow> motor_array \<Rightarrow> motor_array" where
  "stored ws motor = (\<lambda>j. if j < length ws then encode (ws ! j) else motor j)"

text \<open>The four motor values \<^verbatim>\<open>set_motors\<close> has written when it returns.\<close>

definition motor_command ::
  "error + ((real \<times> real \<times> real) \<times> 'r base_driver) \<Rightarrow> error + int list" where
  "motor_command res =
     (case res of Inl e \<Rightarrow> Inl e | Inr (refs, s') \<Rightarrow> Inr (map (msp_set_motor s') [0..<4]))"

text \<open>A planar command: the three fields the callback zeroes are zero.\<close>

definition planar :: "twist \<Rightarrow> bool" where
  "planar m = (linear_z m = 0 \<and> angular_x m = 0 \<and> angular_y m = 0)"

text \<open>The messages published on \<^verbatim>\<open>base/velocity/get\<close> so far, oldest first.\<close>

definition echoes :: "'r base_driver \<Rightarrow> twist list" where
  "echoes s = map snd (filter (\<lambda>(t, m). t = Vel_get) (published s))"

text \<open>A command with the three fields \<^verbatim>\<open>set_motors\<close> is given clamped to \<open>[-1, 1]\<close>.\<close>

definition clamped :: "twist \<Rightarrow> twist" where
  "clamped msg = msg\<lparr>linear_x := clamp (linear_x msg) (- 1) 1,
                     linear_y := clamp (linear_y msg) (- 1) 1,
                     angular_z := clamp (angular_z msg) (- 1) 1\<rparr>"

text \<open>The invariant of the node: the pending command and every echo are planar.\<close>

definition planar_inv :: "'r base_driver \<Rightarrow> bool" where
  "planar_inv s =
     ((\<forall>m. msg_vel_set s = Some m \<longrightarrow> planar m) \<and> (\<forall>m\<in>set (echoes s). planar m))"

text \<open>
  A receiver that never completes a frame, to evaluate the node on concrete events.
\<close>

definition no_receiver :: "unit receiver_ops" where
  "no_receiver =
     \<lparr>recv = (\<lambda>r c. (False, r)),
      match_raw_imu = (\<lambda>r. False),
      data_raw_imu = (\<lambda>r. \<lparr>accX = 0, accY = 0, accZ = 0, gyrX = 0, gyrY = 0, gyrZ = 0\<rparr>),
      match_attitude = (\<lambda>r. False),
      data_attitude = (\<lambda>r. \<lparr>angx = 0, angy = 0, heading = 0\<rparr>)\<rparr>"

section \<open>Verified properties\<close>

subsection \<open>Rounding, clamping and the two loops\<close>

lemma cpp_round_of_int: "cpp_round (real_of_int k) = k"
  unfolding cpp_round_def by (auto simp: floor_eq_iff)

lemma std_max_eq: "std_max a b = max a b"
  by (simp add: std_max_def max_def)

lemma clamp_id: "\<bar>x\<bar> \<le> 1 \<Longrightarrow> clamp x (- 1) 1 = x"
  by (simp add: clamp_def abs_le_iff)

lemma encode_range: "1400 \<le> encode w \<and> encode w \<le> 1600"
proof -
  define k where "k = cpp_round (DSHOT_NEUTRAL + max_velocity * w)"
  have e: "encode w = cpp_round (clamp (real_of_int k) 1400 1600)"
    unfolding encode_def k_def Let_def
    by (simp add: DSHOT_NEUTRAL_def max_velocity_def comb_limit_def)
  have "clamp (real_of_int k) 1400 1600 =
        real_of_int (if k < 1400 then 1400 else if 1600 < k then 1600 else k)"
    unfolding clamp_def by auto
  then show ?thesis unfolding e by (simp add: cpp_round_of_int)
qed

lemma encode_values:
  "encode 2 = 1600" "encode (- 2) = 1400" "encode 0 = 1500" "encode 1 = 1550"
  by (simp_all add: encode_def Let_def DSHOT_NEUTRAL_def max_velocity_def comb_limit_def
      cpp_round_def clamp_def)

lemma upd_window:
  "(if Suc i \<le> j \<and> j < Suc i + length ws then f (ws ! (j - Suc i)) else (motor(i := f w)) j) =
   (if i \<le> j \<and> j < i + length (w # ws) then f ((w # ws) ! (j - i)) else motor j)"
proof (cases "j = i")
  case True
  then show ?thesis by simp
next
  case False
  show ?thesis
  proof (cases "i < j")
    case True
    then obtain k where k: "j = Suc (i + k)"
      using less_iff_Suc_add by auto
    show ?thesis unfolding k by simp
  next
    case False
    with \<open>j \<noteq> i\<close> have "j < i" by simp
    then show ?thesis by simp
  qed
qed

text \<open>The encoding loop never fails: every value it stores passes the check.\<close>

lemma encode_loop_total:
  "encode_loop i ws motor =
     Inr (\<lambda>j. if i \<le> j \<and> j < i + length ws then encode (ws ! (j - i)) else motor j)"
proof (induction ws arbitrary: i motor)
  case Nil
  show ?case by auto
next
  case (Cons w ws)
  have "(\<lambda>j. if Suc i \<le> j \<and> j < Suc i + length ws then encode (ws ! (j - Suc i))
              else (motor(i := encode w)) j) =
        (\<lambda>j. if i \<le> j \<and> j < i + length (w # ws) then encode ((w # ws) ! (j - i))
              else motor j)"
    by (rule ext) (rule upd_window)
  then have eq:
    "Inr (\<lambda>j. if Suc i \<le> j \<and> j < Suc i + length ws then encode (ws ! (j - Suc i))
                else (motor(i := encode w)) j) =
     (Inr (\<lambda>j. if i \<le> j \<and> j < i + length (w # ws) then encode ((w # ws) ! (j - i))
                else motor j) :: error + motor_array)"
    by (rule arg_cong)
  have "encode_loop i (w # ws) motor = encode_loop (Suc i) ws (motor(i := encode w))"
    using encode_range[of w] by (simp add: Let_def)
  also note Cons.IH
  also note eq
  finally show ?case .
qed

lemma encode_loop_0: "encode_loop 0 ws motor = Inr (stored ws motor)"
  by (simp add: encode_loop_total stored_def cong: if_cong)

lemma stored_nth: "j < length ws \<Longrightarrow> stored ws motor j = encode (ws ! j)"
  by (simp add: stored_def)

lemma mix_loop_V:
  "mix_loop x y r V 0 =
     ([x - y - r, x + y - r, x + y + r, x - y + r],
      max (max (max \<bar>x - y - r\<bar> \<bar>x + y - r\<bar>) \<bar>x + y + r\<bar>) \<bar>x - y + r\<bar>)"
  by (simp add: V_def Let_def std_max_eq)

lemma length_throttle: "length (throttle v a) = length v"
  by (simp add: throttle_def Let_def)

lemma length_wheel_speeds: "length (wheel_speeds x y r) = 4"
  by (simp add: wheel_speeds_def mix_loop_V length_throttle)

lemma length_mix: "length (mix vx vy vr) = 4"
  by (simp add: mix_def length_wheel_speeds)

lemma upt_4: "[0..<4] = [0, 1, 2, 3]"
  by (simp add: upt_rec)

text \<open>What \<^verbatim>\<open>set_motors\<close> returns, in closed form.\<close>

lemma set_motors_result:
  "set_motors (vx, vy, vr) s =
     Inr ((clamp vx (-1) 1, clamp vy (-1) 1, clamp vr (-1) 1),
          s\<lparr>msp_set_motor := stored (mix vx vy vr) (msp_set_motor s),
            serial_tx := serial_tx s @
              [MSP_CMD_SET_MOTOR (stored (mix vx vy vr) (msp_set_motor s))]\<rparr>)"
  by (simp add: set_motors_def Let_def encode_loop_0 mix_def)

lemma motor_command_set_motors:
  "motor_command (set_motors (vx, vy, vr) s) = Inr (map encode (mix vx vy vr))"
proof -
  obtain a b c d where m: "mix vx vy vr = [a, b, c, d]"
    using length_mix[of vx vy vr] by (auto simp: length_Suc_conv numeral_eq_Suc)
  show ?thesis
    by (simp add: motor_command_def set_motors_result m stored_def upt_4)
qed

lemma mix_0_0_0: "mix 0 0 0 = [0, 0, 0, 0]"
  by (simp add: mix_def wheel_speeds_def clamp_def mix_loop_V throttle_def comb_limit_def)

lemma mix_1_0_0: "mix 1 0 0 = [1, 1, 1, 1]"
  by (simp add: mix_def wheel_speeds_def clamp_def mix_loop_V throttle_def comb_limit_def)

lemma mix_1_1_1: "mix 1 1 1 = [- (2 / 3), 2 / 3, 2, 2 / 3]"
  by (simp add: mix_def wheel_speeds_def clamp_def mix_loop_V throttle_def comb_limit_def)

lemma mix_rotation: "- 1 \<le> r \<Longrightarrow> r \<le> 1 \<Longrightarrow> mix 0 0 r = [- r, - r, r, r]"
  by (simp add: mix_def wheel_speeds_def clamp_def mix_loop_V throttle_def comb_limit_def)

subsection \<open>The safety envelope\<close>

text \<open>
  Claim C1. For every real input \<open>(vx, vy, vr)\<close> and every state, \<^verbatim>\<open>set_motors\<close> returns
  normally (the assertion of line 78 never fails), each of the four motor values it has
  written lies in \<open>[1400, 1600]\<close>, and the frame it sends carries exactly those values.
\<close>

theorem set_motors_in_envelope:
  "\<exists>refs s'. set_motors (vx, vy, vr) s = Inr (refs, s') \<and>
     list_all (\<lambda>m. 1400 \<le> m \<and> m \<le> 1600) (map (msp_set_motor s') [0..<4]) \<and>
     serial_tx s' = serial_tx s @ [MSP_CMD_SET_MOTOR (msp_set_motor s')]"
  by (simp add: set_motors_result upt_4 stored_nth length_mix encode_range)

text \<open>
  Claim C8. The command \<open>vx = vy = vr = 0\<close> is encoded as \<open>[1500, 1500, 1500, 1500]\<close>,
  and that is what the frame sent carries.
\<close>

theorem zero_command_neutral:
  "\<exists>refs s'. set_motors (0, 0, 0) s = Inr (refs, s') \<and>
     map (msp_set_motor s') [0..<4] = [1500, 1500, 1500, 1500] \<and>
     serial_tx s' = serial_tx s @ [MSP_CMD_SET_MOTOR (msp_set_motor s')]"
  by (simp add: set_motors_result mix_0_0_0 stored_nth upt_4 encode_values)

subsection \<open>The mixer\<close>

text \<open>
  Claim C2. For a pure rotation \<open>vx = vy = 0\<close>, \<open>vr = r\<close> with \<open>r\<close> in \<open>[-1, 1]\<close> and
  \<open>r \<noteq> 0\<close>, each wheel speed the mixer produces is \<open>r\<close> times the rotation coefficient
  of its row of the layout, so all four have magnitude \<open>\<bar>r\<bar>\<close>.
\<close>

theorem pure_rotation_equal_magnitude:
  assumes "- 1 \<le> r" and "r \<le> 1" and "r \<noteq> 0"
  shows "mix 0 0 r = map (\<lambda>(c0, c1, c2). c2 * r) V \<and>
         map abs (mix 0 0 r) = [\<bar>r\<bar>, \<bar>r\<bar>, \<bar>r\<bar>, \<bar>r\<bar>]"
  using assms by (simp add: mix_rotation V_def)

theorem pure_rotation_equal_magnitude_witness:
  "- 1 \<le> (1 / 2 :: real) \<and> (1 / 2 :: real) \<le> 1 \<and> (1 / 2 :: real) \<noteq> 0 \<and>
   mix 0 0 (1 / 2) = map (\<lambda>(c0, c1, c2). c2 * (1 / 2)) V \<and>
   map abs (mix 0 0 (1 / 2)) = [1 / 2, 1 / 2, 1 / 2, 1 / 2]"
  using pure_rotation_equal_magnitude [of "1 / 2"] by (simp add: V_def)

lemma max_scale: "0 < c \<Longrightarrow> max (c * a) (c * b) = c * max a (b::real)"
  by (simp add: max_def)

lemma abs_scale:
  "0 < c \<Longrightarrow> \<bar>c * x - c * y - c * r\<bar> = c * \<bar>x - y - (r::real)\<bar>"
  "0 < c \<Longrightarrow> \<bar>c * x + c * y - c * r\<bar> = c * \<bar>x + y - (r::real)\<bar>"
  "0 < c \<Longrightarrow> \<bar>c * x + c * y + c * r\<bar> = c * \<bar>x + y + (r::real)\<bar>"
  "0 < c \<Longrightarrow> \<bar>c * x - c * y + c * r\<bar> = c * \<bar>x - y + (r::real)\<bar>"
  by (simp_all add: abs_mult flip: distrib_left right_diff_distrib)

lemma mix_loop_scale:
  assumes "0 < c"
  shows "mix_loop (c * x) (c * y) (c * r) V 0 =
    (map (\<lambda>w. c * w) (fst (mix_loop x y r V 0)), c * snd (mix_loop x y r V 0))"
  unfolding mix_loop_V using assms
  by (simp add: abs_scale max_scale right_diff_distrib distrib_left)

text \<open>
  Claim C4, as stated: scaling any command by any \<open>c\<close> in \<open>(0, 1]\<close> scales every wheel
  speed by \<open>c\<close>. It fails where the mixer throttles, as for \<open>(1, 1, 1)\<close> and \<open>c = 1/2\<close>
  (the full command is throttled to peak 2, the halved one is not throttled), and where
  an input is clamped, as for \<open>(2, 0, 0)\<close> and \<open>c = 1/2\<close>.
\<close>

theorem mix_scaling_counterexample:
  "mix (1 / 2 * 1) (1 / 2 * 1) (1 / 2 * 1) \<noteq> map (\<lambda>w. 1 / 2 * w) (mix 1 1 1) \<and>
   mix (1 / 2 * 2) (1 / 2 * 0) (1 / 2 * 0) \<noteq> map (\<lambda>w. 1 / 2 * w) (mix 2 0 0)"
  by (simp add: mix_def wheel_speeds_def clamp_def mix_loop_V throttle_def comb_limit_def)

text \<open>
  Claim C4, amended. For a command with every component in \<open>[-1, 1]\<close> whose raw peak
  wheel magnitude is at most 2 (it is not throttled), and every \<open>c\<close> with \<open>0 < c \<le> 1\<close>,
  the mixer maps the scaled command to \<open>c\<close> times each wheel speed of the original one.
\<close>

theorem mix_scaling_unsaturated:
  assumes "\<bar>vx\<bar> \<le> 1" and "\<bar>vy\<bar> \<le> 1" and "\<bar>vr\<bar> \<le> 1"
    and "snd (raw_mix vx vy vr) \<le> 2"
    and "0 < c" and "c \<le> 1"
  shows "mix (c * vx) (c * vy) (c * vr) = map (\<lambda>w. c * w) (mix vx vy vr)"
proof -
  have in_range: "\<bar>c * x\<bar> \<le> 1" if "\<bar>x\<bar> \<le> 1" for x :: real
  proof -
    have "\<bar>c * x\<bar> = c * \<bar>x\<bar>" using \<open>0 < c\<close> by (simp add: abs_mult)
    also have "\<dots> \<le> 1 * 1" using that \<open>0 < c\<close> \<open>c \<le> 1\<close> by (intro mult_mono) auto
    finally show ?thesis by simp
  qed
  define v where "v = fst (mix_loop vx vy vr V 0)"
  define a where "a = snd (mix_loop vx vy vr V 0)"
  have raw: "mix_loop vx vy vr V 0 = (v, a)" by (simp add: v_def a_def)
  have a2: "a \<le> 2" using assms(1-4) by (simp add: raw_mix_def clamp_id a_def)
  have a0: "0 \<le> a" unfolding a_def mix_loop_V by (simp add: le_max_iff_disj)
  have "c * a \<le> 1 * 2" using a2 a0 \<open>0 < c\<close> \<open>c \<le> 1\<close> by (intro mult_mono) auto
  then have ca2: "c * a \<le> 2" by simp
  have "mix (c * vx) (c * vy) (c * vr) = wheel_speeds (c * vx) (c * vy) (c * vr)"
    using assms(1-3) by (simp add: mix_def clamp_id in_range)
  also have "\<dots> = throttle (map (\<lambda>w. c * w) v) (c * a)"
    using \<open>0 < c\<close> by (simp add: wheel_speeds_def mix_loop_scale raw)
  also have "\<dots> = map (\<lambda>w. c * w) v"
    using ca2 by (simp add: throttle_def comb_limit_def)
  also have "v = throttle v a"
    using a2 by (simp add: throttle_def comb_limit_def)
  also have "\<dots> = wheel_speeds vx vy vr"
    by (simp add: wheel_speeds_def raw)
  also have "\<dots> = mix vx vy vr"
    using assms(1-3) by (simp add: mix_def clamp_id)
  finally show ?thesis .
qed

theorem mix_scaling_unsaturated_witness:
  "\<bar>1 / 2 :: real\<bar> \<le> 1 \<and> \<bar>1 :: real\<bar> \<le> 1 \<and> snd (raw_mix (1 / 2) 1 (1 / 2)) \<le> 2 \<and>
   (0 :: real) < 1 / 2 \<and> (1 / 2 :: real) \<le> 1 \<and>
   mix (1 / 2 * (1 / 2)) (1 / 2 * 1) (1 / 2 * (1 / 2)) =
     map (\<lambda>w. 1 / 2 * w) (mix (1 / 2) 1 (1 / 2))"
proof -
  have h: "snd (raw_mix (1 / 2) 1 (1 / 2)) \<le> 2"
    by (simp add: raw_mix_def clamp_def mix_loop_V)
  show ?thesis using h mix_scaling_unsaturated [of "1 / 2" 1 "1 / 2" "1 / 2"] by simp
qed

text \<open>
  Claim C5, as stated: the command \<open>(1, 0, 0)\<close> gives wheel speeds \<open>[1, 1, -1, -1]\<close> and
  the motor command \<open>[1550, 1550, 1450, 1450]\<close>. With the layout \<open>V\<close> of the code, whose
  forward column is all ones, neither is what is computed.
\<close>

theorem forward_command_counterexample:
  "mix 1 0 0 \<noteq> [1, 1, - 1, - 1] \<and>
   motor_command (set_motors (1, 0, 0) (power_on ())) \<noteq> Inr [1550, 1550, 1450, 1450]"
  by (simp add: motor_command_set_motors mix_1_0_0 encode_values)

text \<open>
  Claim C5, amended. The command \<open>(1, 0, 0)\<close> gives the wheel speeds \<open>[1, 1, 1, 1]\<close> with
  raw amplitude 1, throttling leaves them unchanged, and the motor command is
  \<open>[1550, 1550, 1550, 1550]\<close>.
\<close>

theorem forward_command_scenario:
  "raw_mix 1 0 0 = ([1, 1, 1, 1], 1) \<and>
   throttle [1, 1, 1, 1] 1 = [1, 1, 1, 1] \<and>
   mix 1 0 0 = [1, 1, 1, 1] \<and>
   motor_command (set_motors (1, 0, 0) s) = Inr [1550, 1550, 1550, 1550]"
  by (simp add: motor_command_set_motors mix_1_0_0 encode_values raw_mix_def clamp_def
      mix_loop_V throttle_def comb_limit_def)

subsection \<open>Saturation\<close>

lemma Max_4: "Max (f ` set [a, b, c, d]) = max (max (max (f a) (f b)) (f c)) (f d :: real)"
  by (simp add: max.assoc)

text \<open>The amplitude the first loop computes is the peak magnitude of the four raw speeds.\<close>

lemma raw_mix_peak:
  assumes "raw_mix vx vy vr = (v, amplitude)"
  shows "length v = 4 \<and> Max (abs ` set v) = amplitude"
proof -
  obtain a b c d where v: "v = [a, b, c, d]"
    and amp: "amplitude = max (max (max \<bar>a\<bar> \<bar>b\<bar>) \<bar>c\<bar>) \<bar>d\<bar>"
    using assms unfolding raw_mix_def mix_loop_V by blast
  show ?thesis unfolding v amp by (simp only: Max_4) simp
qed

text \<open>
  Claim C3. Let \<open>v\<close> be the raw wheel speeds of a command (after the three clamps) and
  \<open>amplitude\<close> their peak magnitude. If \<open>amplitude > 2\<close>, then \<^verbatim>\<open>set_motors\<close> returns
  normally, every wheel whose raw magnitude is the peak gets exactly 1400 or 1600, and all
  four motor values lie in \<open>[1400, 1600]\<close>.
\<close>

theorem saturated_peak_at_extreme:
  assumes "raw_mix vx vy vr = (v, amplitude)" and "2 < amplitude"
  shows "Max (abs ` set v) = amplitude \<and>
     (\<exists>refs s'. set_motors (vx, vy, vr) s = Inr (refs, s') \<and>
        (\<forall>i<4. \<bar>v ! i\<bar> = amplitude \<longrightarrow>
                msp_set_motor s' i = 1400 \<or> msp_set_motor s' i = 1600) \<and>
        (\<forall>i<4. 1400 \<le> msp_set_motor s' i \<and> msp_set_motor s' i \<le> 1600))"
proof -
  have lv: "length v = 4" using raw_mix_peak[OF assms(1)] by simp
  have m: "mix vx vy vr = map (\<lambda>x. x / (amplitude / 2)) v"
    using assms by (simp add: mix_def wheel_speeds_def raw_mix_def throttle_def comb_limit_def)
  have extreme: "stored (mix vx vy vr) (msp_set_motor s) i = 1400 \<or>
                 stored (mix vx vy vr) (msp_set_motor s) i = 1600"
    if "i < 4" "\<bar>v ! i\<bar> = amplitude" for i
  proof -
    have "v ! i = amplitude \<or> v ! i = - amplitude"
      using that(2) by (auto simp: abs_if split: if_splits)
    then have "v ! i / (amplitude / 2) = 2 \<or> v ! i / (amplitude / 2) = - 2"
      using assms(2) by auto
    then show ?thesis using that(1) lv by (auto simp: stored_def m encode_values)
  qed
  have range: "1400 \<le> stored (mix vx vy vr) (msp_set_motor s) i \<and>
               stored (mix vx vy vr) (msp_set_motor s) i \<le> 1600"
    if "i < 4" for i
    using that lv by (simp add: stored_def m encode_range)
  show ?thesis
    using raw_mix_peak[OF assms(1)] extreme range by (simp add: set_motors_result)
qed

theorem saturated_peak_at_extreme_witness:
  "raw_mix 1 1 1 = ([- 1, 1, 3, 1], 3) \<and> (2 :: real) < 3 \<and>
   Max (abs ` set [- 1, 1, 3, 1 :: real]) = 3 \<and>
   (\<exists>refs s'. set_motors (1, 1, 1) (power_on ()) = Inr (refs, s') \<and>
      (\<forall>i<4. \<bar>[- 1, 1, 3, 1 :: real] ! i\<bar> = 3 \<longrightarrow>
              msp_set_motor s' i = 1400 \<or> msp_set_motor s' i = 1600) \<and>
      (\<forall>i<4. 1400 \<le> msp_set_motor s' i \<and> msp_set_motor s' i \<le> 1600))"
proof -
  have h1: "raw_mix 1 1 1 = ([- 1, 1, 3, 1], 3)"
    by (simp add: raw_mix_def clamp_def mix_loop_V)
  have h2: "(2 :: real) < 3" by simp
  from saturated_peak_at_extreme [OF h1 h2, of "power_on ()"] h1 h2
  show ?thesis by blast
qed

text \<open>The same input evaluated: the peak wheel is at 1600, the others keep their ratios.\<close>

lemma saturated_example:
  "motor_command (set_motors (1, 1, 1) s) = Inr [1467, 1533, 1600, 1533]"
  by (simp add: motor_command_set_motors mix_1_1_1 encode_def Let_def DSHOT_NEUTRAL_def
      max_velocity_def comb_limit_def cpp_round_def clamp_def)

subsection \<open>The scheduler\<close>

lemma serial_in_frame:
  "msg_vel_set (serial_in ops bytes s) = msg_vel_set s \<and>
   serial_tx (serial_in ops bytes s) = serial_tx s \<and>
   msp_set_motor (serial_in ops bytes s) = msp_set_motor s \<and>
   echoes (serial_in ops bytes s) = echoes s"
proof (induction bytes arbitrary: s)
  case Nil
  show ?case by simp
next
  case (Cons c cs)
  obtain complete r where rc: "recv ops (receiver s) c = (complete, r)"
    by (cases "recv ops (receiver s) c")
  define s1 where "s1 = s\<lparr>receiver := r\<rparr>"
  define s2 where "s2 =
    (if \<not> complete then s1
     else if match_raw_imu ops r then update_raw_imu (data_raw_imu ops r) s1
     else if match_attitude ops r then update_attitude (data_attitude ops r) s1
     else s1)"
  have step: "msg_vel_set s2 = msg_vel_set s \<and> serial_tx s2 = serial_tx s \<and>
     msp_set_motor s2 = msp_set_motor s \<and> echoes s2 = echoes s"
    by (simp add: s2_def s1_def update_raw_imu_def update_attitude_def echoes_def Let_def)
  have "serial_in ops (c # cs) s = serial_in ops cs s2"
    by (simp add: rc s2_def s1_def)
  with Cons.IH[of s2] step show ?case by simp
qed

lemma serial_out_idle:
  "msg_vel_set s = None \<Longrightarrow>
   serial_out s = Inr (s\<lparr>serial_tx := serial_tx s @ [MSP_QRY_RAW_IMU, MSP_QRY_ATTITUDE]\<rparr>)"
  by (simp add: serial_out_def)

lemma serial_out_pending:
  "msg_vel_set s = Some msg \<Longrightarrow>
   serial_out s =
     Inr (s\<lparr>msp_set_motor := stored (mix (linear_x msg) (linear_y msg) (angular_z msg)) (msp_set_motor s),
           serial_tx := serial_tx s @
             [MSP_CMD_SET_MOTOR (stored (mix (linear_x msg) (linear_y msg) (angular_z msg)) (msp_set_motor s)),
              MSP_QRY_RAW_IMU, MSP_QRY_ATTITUDE],
           published := published s @ [(Vel_get, clamped msg)],
           msg_vel_set := None\<rparr>)"
  by (simp add: serial_out_def set_motors_result clamped_def)

lemma power_on_fields:
  "msg_vel_set (power_on r) = None" "serial_tx (power_on r) = []"
  "published (power_on r) = []" "msp_set_motor (power_on r) = (\<lambda>i. 0)"
  "receiver (power_on r) = r"
  by (simp_all add: power_on_def)

text \<open>
  Claim C7. Every timer tick returns normally and leaves the pending slot empty; and a
  tick that starts with no pending command sends exactly the raw-inertial query and the
  attitude query, in this order, and no motor frame (the motor struct is unchanged).
\<close>

theorem idle_tick_sends_queries_only:
  "\<exists>s'. timer_callback ops bytes s = Inr s' \<and> msg_vel_set s' = None \<and>
     (msg_vel_set s = None \<longrightarrow>
        serial_tx s' = serial_tx s @ [MSP_QRY_RAW_IMU, MSP_QRY_ATTITUDE] \<and>
        msp_set_motor s' = msp_set_motor s)"
proof (cases "msg_vel_set s")
  case None
  then have "msg_vel_set (serial_in ops bytes s) = None" by (simp add: serial_in_frame)
  from serial_out_idle[OF this] None show ?thesis
    by (simp add: timer_callback_def serial_in_frame)
next
  case (Some msg)
  then have "msg_vel_set (serial_in ops bytes s) = Some msg" by (simp add: serial_in_frame)
  from serial_out_pending[OF this] Some show ?thesis
    by (simp add: timer_callback_def)
qed

theorem idle_tick_sends_queries_only_witness:
  "msg_vel_set (power_on ()) = None \<and>
   (\<exists>s'. timer_callback no_receiver [1, 2, 3] (power_on ()) = Inr s' \<and> msg_vel_set s' = None \<and>
      serial_tx s' = [MSP_QRY_RAW_IMU, MSP_QRY_ATTITUDE] \<and>
      msp_set_motor s' = msp_set_motor (power_on ()))"
proof -
  have h: "msg_vel_set (power_on ()) = None" by (simp add: power_on_def)
  have tx: "serial_tx (power_on ()) = []" by (simp add: power_on_def)
  from idle_tick_sends_queries_only [of no_receiver "[1, 2, 3]" "power_on ()"] h tx
  show ?thesis by auto
qed

text \<open>
  Claim C6, amended. When a command is pending, \<^verbatim>\<open>serial_out\<close> returns normally and
  publishes on the feedback topic the pending command with \<open>linear.x\<close>, \<open>linear.y\<close> and
  \<open>angular.z\<close> each clamped to \<open>[-1, 1]\<close> and every other field unchanged; when these
  three fields already lie in \<open>[-1, 1]\<close>, it is the pending command itself.
\<close>

theorem echo_is_clamped_command:
  assumes "msg_vel_set s = Some msg"
  shows "\<exists>s'. serial_out s = Inr s' \<and>
     published s' = published s @ [(Vel_get, clamped msg)] \<and>
     (\<bar>linear_x msg\<bar> \<le> 1 \<and> \<bar>linear_y msg\<bar> \<le> 1 \<and> \<bar>angular_z msg\<bar> \<le> 1 \<longrightarrow>
        published s' = published s @ [(Vel_get, msg)])"
  by (simp add: serial_out_pending[OF assms] clamped_def clamp_id)

theorem echo_is_clamped_command_witness:
  "msg_vel_set (power_on () \<lparr>msg_vel_set := Some (zero_twist\<lparr>linear_x := 1 / 2\<rparr>)\<rparr>)
     = Some (zero_twist\<lparr>linear_x := 1 / 2\<rparr>) \<and>
   (\<exists>s'. serial_out (power_on () \<lparr>msg_vel_set := Some (zero_twist\<lparr>linear_x := 1 / 2\<rparr>)\<rparr>) = Inr s' \<and>
      published s' = [(Vel_get, zero_twist\<lparr>linear_x := 1 / 2\<rparr>)])"
proof -
  have p: "msg_vel_set (power_on () \<lparr>msg_vel_set := Some (zero_twist\<lparr>linear_x := 1 / 2\<rparr>)\<rparr>)
     = Some (zero_twist\<lparr>linear_x := 1 / 2\<rparr>)" by simp
  have r: "\<bar>linear_x (zero_twist\<lparr>linear_x := 1 / 2\<rparr>)\<bar> \<le> 1 \<and>
           \<bar>linear_y (zero_twist\<lparr>linear_x := 1 / 2\<rparr>)\<bar> \<le> 1 \<and>
           \<bar>angular_z (zero_twist\<lparr>linear_x := 1 / 2\<rparr>)\<bar> \<le> 1"
    by (simp add: zero_twist_def)
  from echo_is_clamped_command [OF p] r p show ?thesis by (auto simp: power_on_fields)
qed

text \<open>
  Claim C6, as stated: the echo is the consumed command field for field. A pending
  command with \<open>linear.x = 5\<close> is echoed with \<open>linear.x = 1\<close>: the clamp in
  \<^verbatim>\<open>set_motors\<close> writes through the reference into the message.
\<close>

theorem echo_verbatim_counterexample:
  "map_sum id published (serial_out (power_on () \<lparr>msg_vel_set := Some (zero_twist\<lparr>linear_x := 5\<rparr>)\<rparr>))
     = Inr [(Vel_get, zero_twist\<lparr>linear_x := 1\<rparr>)] \<and>
   map_sum id published (serial_out (power_on () \<lparr>msg_vel_set := Some (zero_twist\<lparr>linear_x := 5\<rparr>)\<rparr>))
     \<noteq> Inr [(Vel_get, zero_twist\<lparr>linear_x := 5\<rparr>)]"
proof -
  have p: "msg_vel_set (power_on () \<lparr>msg_vel_set := Some (zero_twist\<lparr>linear_x := 5\<rparr>)\<rparr>)
     = Some (zero_twist\<lparr>linear_x := 5\<rparr>)" by simp
  show ?thesis
    by (simp add: serial_out_pending[OF p] clamped_def clamp_def power_on_fields)
      (simp add: zero_twist_def)
qed

lemma planar_clamped: "planar (clamped m) = planar m"
  by (simp add: planar_def clamped_def)

lemma echoes_simps:
  "echoes (s\<lparr>serial_tx := tx\<rparr>) = echoes s"
  "echoes (s\<lparr>msp_set_motor := mo\<rparr>) = echoes s"
  "echoes (s\<lparr>msg_vel_set := p\<rparr>) = echoes s"
  "echoes (s\<lparr>published := published s0 @ [(Vel_get, m)]\<rparr>) = echoes s0 @ [m]"
  by (simp_all add: echoes_def)

lemma inv_vel_set_callback: "planar_inv s \<Longrightarrow> planar_inv (vel_set_callback msg s)"
  by (simp add: planar_inv_def vel_set_callback_def planar_def echoes_simps)

lemma inv_timer_callback:
  assumes "planar_inv s"
  shows "\<exists>s'. timer_callback ops bytes s = Inr s' \<and> planar_inv s'"
proof -
  define s1 where "s1 = serial_in ops bytes s"
  have e1: "echoes s1 = echoes s" and m1: "msg_vel_set s1 = msg_vel_set s"
    by (simp_all add: s1_def serial_in_frame)
  show ?thesis
  proof (cases "msg_vel_set s")
    case None
    then have n: "msg_vel_set s1 = None" by (simp add: m1)
    show ?thesis using assms
      by (simp add: timer_callback_def serial_out_idle[OF n] planar_inv_def echoes_simps e1 n
          flip: s1_def)
  next
    case (Some msg)
    then have p: "msg_vel_set s1 = Some msg" by (simp add: m1)
    have "planar msg" using assms Some by (simp add: planar_inv_def)
    then show ?thesis using assms
      by (simp add: timer_callback_def serial_out_pending[OF p] planar_inv_def echoes_simps e1
          planar_clamped flip: s1_def)
  qed
qed

lemma inv_run: "planar_inv s \<Longrightarrow> \<exists>s'. run ops es s = Inr s' \<and> planar_inv s'"
proof (induction es arbitrary: s)
  case Nil
  then show ?case by simp
next
  case (Cons e es)
  show ?case
  proof (cases e)
    case (Vel_set msg)
    with Cons.IH[OF inv_vel_set_callback[OF Cons.prems]] show ?thesis by simp
  next
    case (Timer bytes)
    from inv_timer_callback[OF Cons.prems, of ops bytes]
    obtain s1 where "timer_callback ops bytes s = Inr s1" "planar_inv s1" by blast
    with Cons.IH[of s1] Timer show ?thesis by simp
  qed
qed

lemma serial_init_result:
  "serial_init r = Inr ((power_on r)\<lparr>msp_set_motor := stored (mix 0 0 0) (\<lambda>i. 0),
      serial_tx := [MSP_CMD_SET_MOTOR (stored (mix 0 0 0) (\<lambda>i. 0))]\<rparr>)"
  by (simp add: serial_init_def set_motors_result power_on_fields)

text \<open>
  Claim C10. The subscription callback stores the message with \<open>linear.z\<close>, \<open>angular.x\<close>
  and \<open>angular.y\<close> set to zero, whatever the producer sent; and after any sequence of
  messages and timer ticks the node is still running, the pending command (if any) is
  planar, and so is every command echoed so far.
\<close>

theorem pending_and_echo_planar:
  "msg_vel_set (vel_set_callback msg s) = Some (msg\<lparr>linear_z := 0, angular_x := 0, angular_y := 0\<rparr>) \<and>
   (\<exists>s'. node ops r es = Inr s' \<and>
      (\<forall>m. msg_vel_set s' = Some m \<longrightarrow> planar m) \<and>
      (\<forall>m\<in>set (echoes s'). planar m))"
proof -
  have "planar_inv ((power_on r)\<lparr>msp_set_motor := stored (mix 0 0 0) (\<lambda>i. 0),
      serial_tx := [MSP_CMD_SET_MOTOR (stored (mix 0 0 0) (\<lambda>i. 0))]\<rparr>)"
    by (simp add: planar_inv_def echoes_def power_on_fields)
  from inv_run[OF this, of ops es] show ?thesis
    by (simp add: node_def serial_init_result vel_set_callback_def planar_inv_def)
qed

theorem pending_and_echo_planar_witness:
  "msg_vel_set (vel_set_callback (zero_twist\<lparr>linear_z := 3, angular_x := 4\<rparr>) (power_on ())) =
     Some (zero_twist\<lparr>linear_z := 3, angular_x := 4\<rparr>\<lparr>linear_z := 0, angular_x := 0, angular_y := 0\<rparr>) \<and>
   (\<exists>s'. node no_receiver ()
          [Vel_set (zero_twist\<lparr>linear_z := 3, angular_x := 4\<rparr>), Timer [7],
           Vel_set (zero_twist\<lparr>linear_z := 3, angular_x := 4\<rparr>)] = Inr s' \<and>
      (\<forall>m. msg_vel_set s' = Some m \<longrightarrow> planar m) \<and>
      (\<forall>m\<in>set (echoes s'). planar m) \<and>
      msg_vel_set s' = Some zero_twist \<and> echoes s' = [zero_twist])"
proof -
  let ?m = "zero_twist\<lparr>linear_z := 3, angular_x := 4\<rparr>"
  let ?es = "[Vel_set ?m, Timer [7], Vel_set ?m]"
  have ev: "map_sum id (\<lambda>s. (msg_vel_set s, echoes s)) (node no_receiver () ?es) =
      Inr (Some zero_twist, [zero_twist])"
    by (simp add: node_def serial_init_result vel_set_callback_def timer_callback_def
        no_receiver_def serial_out_pending echoes_simps echoes_def power_on_fields
        clamped_def clamp_def zero_twist_def)
  from pending_and_echo_planar [of ?m "power_on ()" no_receiver "()" ?es] ev
  show ?thesis by auto
qed

subsection \<open>The wire protocol\<close>

lemma feed_all_append:
  "feed_all c st xs = (f1, st1) \<Longrightarrow> feed_all c st1 ys = (f2, st2) \<Longrightarrow>
   feed_all c st (xs @ ys) = (f1 @ f2, st2)"
  by (induction xs arbitrary: st f1) (auto simp: Let_def split: prod.splits)

lemma feed_sync:
  assumes "sync_bytes c = pre @ rest" and "rest \<noteq> []" and "phase st = Seeking (length pre)"
  shows "feed_all c st rest = (replicate (length rest) False, st\<lparr>phase := Reading_opcode\<rparr>)"
  using assms
proof (induction rest arbitrary: pre st)
  case Nil
  then show ?case by simp
next
  case (Cons b rest)
  have nth: "sync_bytes c ! length pre = b" and lt: "length pre < length (sync_bytes c)"
    using Cons.prems(1) by simp_all
  show ?case
  proof (cases "rest = []")
    case True
    then have "Suc (length pre) = length (sync_bytes c)" using Cons.prems(1) by simp
    then show ?thesis using True Cons.prems(3) nth lt by (simp add: feed_def)
  next
    case False
    then have ne: "Suc (length pre) \<noteq> length (sync_bytes c)" using Cons.prems(1) by simp
    have step: "feed c st b = (False, st\<lparr>phase := Seeking (Suc (length pre))\<rparr>)"
      using Cons.prems(3) nth lt ne by (simp add: feed_def)
    have "feed_all c (st\<lparr>phase := Seeking (Suc (length pre))\<rparr>) rest =
        (replicate (length rest) False, st\<lparr>phase := Seeking (Suc (length pre))\<rparr>\<lparr>phase := Reading_opcode\<rparr>)"
      using Cons.IH[of "pre @ [b]" "st\<lparr>phase := Seeking (Suc (length pre))\<rparr>"] Cons.prems(1) False
      by simp
    then show ?thesis by (simp add: step)
  qed
qed

lemma feed_payload:
  assumes "phase st = Reading_payload" and "expected st = length (partial st) + length ps"
    and "ps \<noteq> []"
  shows "feed_all c st ps =
    (replicate (length ps) False,
     st\<lparr>phase := Reading_checksum, partial := partial st @ ps,
        running := foldl (checksum_step c) (running st) ps\<rparr>)"
  using assms
proof (induction ps arbitrary: st)
  case Nil
  then show ?case by simp
next
  case (Cons b ps)
  show ?case
  proof (cases "ps = []")
    case True
    then show ?thesis using Cons.prems by (simp add: feed_def)
  next
    case False
    define st1 where "st1 = st\<lparr>phase := Reading_payload, partial := partial st @ [b],
        running := checksum_step c (running st) b\<rparr>"
    have step: "feed c st b = (False, st1)"
      using Cons.prems False by (simp add: feed_def st1_def)
    have "feed_all c st1 ps = (replicate (length ps) False,
        st1\<lparr>phase := Reading_checksum, partial := partial st1 @ ps,
           running := foldl (checksum_step c) (running st1) ps\<rparr>)"
      using Cons.prems False by (intro Cons.IH) (simp_all add: st1_def)
    then show ?thesis by (simp add: step st1_def)
  qed
qed

text \<open>
  Claim C9. For every opcode and every payload whose length fits the length byte and
  does not exceed the longest payload accepted, the bytes the encoder produces, fed one
  at a time to a parser that is seeking, are answered false up to the last byte and true
  at the last one; the frame then matches the opcode and the payload retrieved is the
  original payload.
\<close>

theorem frame_roundtrip:
  assumes "sync_bytes c \<noteq> []" and "length payload \<le> max_length c" and "length payload < 256"
  shows "feed_all c (resync c st) (frame_bytes c opcode payload) =
           (replicate (length (frame_bytes c opcode payload) - 1) False @ [True],
            (resync c st)\<lparr>frame_opcode := opcode, complete_frame := Some (opcode, payload)\<rparr>) \<and>
         frame_matches ((resync c st)\<lparr>frame_opcode := opcode, complete_frame := Some (opcode, payload)\<rparr>) opcode \<and>
         frame_data ((resync c st)\<lparr>frame_opcode := opcode, complete_frame := Some (opcode, payload)\<rparr>) = Some payload"
proof -
  let ?n = "of_nat (length payload) :: 8 word"
  have un: "unat ?n = length payload"
    using assms(3) by (simp add: unat_of_nat)
  define s0 where "s0 = resync c st"
  define s1 where "s1 = s0\<lparr>phase := Reading_opcode\<rparr>"
  define s2 where "s2 = s1\<lparr>phase := Reading_length, frame_opcode := opcode,
      running := checksum_step c (checksum_init c) opcode\<rparr>"
  define s3 where "s3 = s2\<lparr>phase := (if length payload = 0 then Reading_checksum else Reading_payload),
      expected := length payload, running := checksum c [opcode, ?n]\<rparr>"
  define s4 where "s4 = s3\<lparr>phase := Reading_checksum, partial := payload,
      running := checksum c ([opcode, ?n] @ payload)\<rparr>"
  define s5 where "s5 = s0\<lparr>frame_opcode := opcode, complete_frame := Some (opcode, payload)\<rparr>"
  have a: "feed_all c s0 (sync_bytes c) = (replicate (length (sync_bytes c)) False, s1)"
    unfolding s1_def using assms(1) by (intro feed_sync[of c "[]"]) (simp_all add: s0_def resync_def)
  have b: "feed_all c s1 [opcode, ?n] = ([False, False], s3)"
    using assms(2) un by (simp add: feed_def s1_def s2_def s3_def s0_def resync_def checksum_def)
  have c: "feed_all c s3 payload = (replicate (length payload) False, s4)"
  proof (cases "payload = []")
    case True
    then show ?thesis
      by (simp add: s4_def s3_def s2_def s1_def s0_def resync_def checksum_def)
  next
    case False
    have "feed_all c s3 payload = (replicate (length payload) False,
        s3\<lparr>phase := Reading_checksum, partial := partial s3 @ payload,
           running := foldl (checksum_step c) (running s3) payload\<rparr>)"
      using False by (intro feed_payload) (simp_all add: s3_def s2_def s1_def s0_def resync_def)
    then show ?thesis
      by (simp add: s4_def s3_def s2_def s1_def s0_def resync_def checksum_def)
  qed
  have d: "feed_all c s4 [checksum c ([opcode, ?n] @ payload)] = ([True], s5)"
    by (simp add: feed_def s5_def s4_def s3_def s2_def s1_def s0_def resync_def)
  have "feed_all c s0 (frame_bytes c opcode payload) =
      (replicate (length (sync_bytes c)) False @ [False, False] @ replicate (length payload) False @ [True], s5)"
    unfolding frame_bytes_def
    by (intro feed_all_append[OF a] feed_all_append[OF b] feed_all_append[OF c] d)
  moreover have "replicate (length (sync_bytes c)) False @ [False, False] @ replicate (length payload) False @ [True]
      = replicate (length (frame_bytes c opcode payload) - 1) False @ [True]"
    by (simp add: frame_bytes_def replicate_add[symmetric] flip: replicate_append_same)
  ultimately show ?thesis
    by (simp add: s5_def s0_def frame_matches_def frame_data_def)
qed

theorem frame_roundtrip_witness:
  "sync_bytes example_codec \<noteq> [] \<and> length [1, 2, 3 :: 8 word] \<le> max_length example_codec \<and>
   length [1, 2, 3 :: 8 word] < 256 \<and>
   frame_bytes example_codec 214 [1, 2, 3] = [0x24, 0x4D, 214, 3, 1, 2, 3, 223] \<and>
   feed_all example_codec (resync example_codec (fresh example_codec))
       [0x24, 0x4D, 214, 3, 1, 2, 3, 223] =
     ([False, False, False, False, False, False, False, True],
      (resync example_codec (fresh example_codec))
        \<lparr>frame_opcode := 214, complete_frame := Some (214, [1, 2, 3])\<rparr>) \<and>
   frame_data ((resync example_codec (fresh example_codec))
        \<lparr>frame_opcode := 214, complete_frame := Some (214, [1, 2, 3])\<rparr>) = Some [1, 2, 3]"
proof -
  have fb: "frame_bytes example_codec 214 [1, 2, 3] = [0x24, 0x4D, 214, 3, 1, 2, 3, 223]"
    by (simp add: frame_bytes_def example_codec_def checksum_def)
  have h: "sync_bytes example_codec \<noteq> []" "length [1, 2, 3 :: 8 word] \<le> max_length example_codec"
    "length [1, 2, 3 :: 8 word] < 256"
    by (simp_all add: example_codec_def)
  from frame_roundtrip [OF h, of "fresh example_codec" 214] fb h
  show ?thesis by (simp add: numeral_eq_Suc)
qed

end
